theory Spec2Isabelle
  imports Complex_Main
begin

section \<open>Ambulance detection system: the embedding of main.py\<close>

text \<open>
  The class \<open>AmbulanceDetectionSystem\<close> of \<open>main.py\<close> is modelled by explicit state
  passing. Python floats are idealised as reals (only comparison, \<open>1.0 / x\<close>, sums and
  truncation are used), Python integers are \<open>int\<close>, and every exception the code can
  raise is a value of \<open>py_error\<close>.
\<close>

subsection \<open>Errors and log records\<close>

datatype py_error =
    KeyError            \<comment> \<open>\<open>self.model.names[class_id]\<close> on an unknown class id\<close>
  | ZeroDivisionError   \<comment> \<open>\<open>1.0 / processing_time\<close> with a zero divisor\<close>
  | ModelError          \<comment> \<open>the external model call \<open>self.model(frame)\<close> raises\<close>
  | Cv2Error            \<comment> \<open>an external drawing or display call raises\<close>

text \<open>The messages the code hands to \<open>self.logger\<close>, one constructor per call site.\<close>

datatype log_entry =
    LogEmergencyActivated   \<comment> \<open>line 115, info\<close>
  | LogEmergencyReset       \<comment> \<open>line 126, info\<close>
  | LogSourceOpenFailed     \<comment> \<open>line 137, error\<close>
  | LogStarting             \<comment> \<open>line 140, info\<close>
  | LogEndOfStream          \<comment> \<open>line 147, warning\<close>
  | LogStopped              \<comment> \<open>line 176, info\<close>

subsection \<open>The object state\<close>

text \<open>
  The fields of \<open>self\<close> that the methods read or write. The dictionary \<open>self.stats\<close>
  has the two fixed keys \<open>total_detections\<close> and \<open>signal_changes\<close>. Two effects are
  made explicit: \<open>timers\<close> counts the \<open>threading.Timer\<close> objects that were started and
  have not fired yet, and \<open>log\<close> collects the logger calls in order.
\<close>

record system =
  confidence_threshold :: real
  emergency_active :: bool
  traffic_signal_state :: string
  total_detections :: int
  signal_changes :: int
  timers :: nat
  log :: "log_entry list"

definition init :: "real \<Rightarrow> system" where
  "init threshold =
     \<lparr> confidence_threshold = threshold,
       emergency_active = False,
       traffic_signal_state = ''RED'',
       total_detections = 0,
       signal_changes = 0,
       timers = 0,
       log = [] \<rparr>"

subsection \<open>The signal controller\<close>

definition trigger_emergency_protocol :: "system \<Rightarrow> system" where
  "trigger_emergency_protocol s =
     (if \<not> emergency_active s
      then s \<lparr> emergency_active := True,
               traffic_signal_state := ''GREEN'',
               signal_changes := signal_changes s + 1,
               log := log s @ [LogEmergencyActivated],
               timers := timers s + 1 \<rparr>
      else s)"

definition reset_emergency_protocol :: "system \<Rightarrow> system" where
  "reset_emergency_protocol s =
     s \<lparr> emergency_active := False,
         traffic_signal_state := ''RED'',
         log := log s @ [LogEmergencyReset] \<rparr>"

text \<open>
  A started timer fires once: it leaves the set of pending timers and calls
  \<open>reset_emergency_protocol\<close>. With no pending timer nothing can fire. Here the
  callback runs as a whole, as it does when no other thread is at work on the state;
  its two stores as separate steps of the timer's thread follow further down.
\<close>

definition timer_fire :: "system \<Rightarrow> system" where
  "timer_fire s =
     (if timers s = 0 then s
      else reset_emergency_protocol (s \<lparr> timers := timers s - 1 \<rparr>))"

text \<open>
  Lines 154 to 156 of the stream loop, the only caller of the trigger: a non-empty list
  of detections is counted and triggers the protocol, an empty one does nothing.
\<close>

definition on_sightings :: "system \<Rightarrow> 'a list \<Rightarrow> system" where
  "on_sightings s detections =
     (if detections \<noteq> []
      then trigger_emergency_protocol
             (s \<lparr> total_detections := total_detections s + int (length detections) \<rparr>)
      else s)"

datatype signal_state = NORMAL | EMERGENCY

definition current_state :: "system \<Rightarrow> signal_state" where
  "current_state s = (if emergency_active s then EMERGENCY else NORMAL)"

subsection \<open>Detection filter\<close>

text \<open>
  A box of the external model: \<open>box.conf\<close>, \<open>box.cls\<close> and \<open>box.xyxy[0]\<close>. The model
  itself is its table of class names and its answer on a frame, a list of results whose
  \<open>boxes\<close> may be \<open>None\<close>, or an exception.
\<close>

record box =
  conf :: real
  cls :: int
  xyxy :: "real \<times> real \<times> real \<times> real"

record detection =
  bbox :: "int \<times> int \<times> int \<times> int"
  confidence :: real

datatype piece = Lit string | Fmt_float nat real | Fmt_int int

type_synonym fstring = "piece list"

type_synonym point = "int \<times> int"

type_synonym color = "int \<times> int \<times> int"

datatype draw_op =
    Rectangle point point color int
  | PutText fstring point real color int
  | AddWeighted draw_op real real real

record frame =
  image :: nat
  height :: int
  width :: int
  drawn :: "draw_op list"

record yolo =
  names :: "int \<rightharpoonup> string"
  infer :: "frame \<Rightarrow> py_error + box list option list"

text \<open>\<open>str.lower\<close> on the ASCII letters, and \<open>int(x)\<close> of a float: truncation towards zero.\<close>

definition lower_char :: "char \<Rightarrow> char" where
  "lower_char c =
     (let n = (of_char c :: nat)
      in if 65 \<le> n \<and> n \<le> 90 then char_of (n + 32) else c)"

definition str_lower :: "string \<Rightarrow> string" where
  "str_lower cs = map lower_char cs"

definition py_int :: "real \<Rightarrow> int" where
  "py_int r = (if 0 \<le> r then \<lfloor>r\<rfloor> else \<lceil>r\<rceil>)"

text \<open>The body of the inner loop (lines 63 to 77): \<open>None\<close> when the box is not kept.\<close>

definition select_box :: "(int \<rightharpoonup> string) \<Rightarrow> real \<Rightarrow> box \<Rightarrow> py_error + detection option" where
  "select_box nm threshold b =
     (if conf b > threshold
      then (case nm (cls b) of
              None \<Rightarrow> Inl KeyError
            | Some class_name \<Rightarrow>
                if str_lower class_name = ''ambulance''
                then (case xyxy b of (x1, y1, x2, y2) \<Rightarrow>
                        Inr (Some \<lparr> bbox = (py_int x1, py_int y1, py_int x2, py_int y2),
                                    confidence = conf b \<rparr>))
                else Inr None)
      else Inr None)"

fun scan_boxes ::
  "(int \<rightharpoonup> string) \<Rightarrow> real \<Rightarrow> box list \<Rightarrow> detection list \<Rightarrow> py_error + detection list" where
  "scan_boxes nm threshold [] acc = Inr acc"
| "scan_boxes nm threshold (b # bs) acc =
     (case select_box nm threshold b of
        Inl e \<Rightarrow> Inl e
      | Inr None \<Rightarrow> scan_boxes nm threshold bs acc
      | Inr (Some d) \<Rightarrow> scan_boxes nm threshold bs (acc @ [d]))"

fun scan_results ::
  "(int \<rightharpoonup> string) \<Rightarrow> real \<Rightarrow> box list option list \<Rightarrow> detection list
     \<Rightarrow> py_error + detection list" where
  "scan_results nm threshold [] acc = Inr acc"
| "scan_results nm threshold (None # rs) acc = scan_results nm threshold rs acc"
| "scan_results nm threshold (Some boxes # rs) acc =
     (case scan_boxes nm threshold boxes acc of
        Inl e \<Rightarrow> Inl e
      | Inr acc' \<Rightarrow> scan_results nm threshold rs acc')"

definition detect_in_frame :: "yolo \<Rightarrow> system \<Rightarrow> frame \<Rightarrow> py_error + detection list" where
  "detect_in_frame y s fr =
     (case infer y fr of
        Inl e \<Rightarrow> Inl e
      | Inr results \<Rightarrow> scan_results (names y) (confidence_threshold s) results [])"

text \<open>
  The filter in the words of the specification, for a class filter \<open>class_filter\<close>: an
  item is kept when its class label equals the filter case-insensitively and its
  confidence is strictly greater than the threshold. The label of a box is the entry of
  its class id in the table of names.
\<close>

definition spec_keeps :: "string \<Rightarrow> real \<Rightarrow> (int \<rightharpoonup> string) \<Rightarrow> box \<Rightarrow> bool" where
  "spec_keeps class_filter min_confidence nm b =
     (case nm (cls b) of
        None \<Rightarrow> False
      | Some label \<Rightarrow> str_lower label = str_lower class_filter \<and> conf b > min_confidence)"

definition sighting :: "box \<Rightarrow> detection" where
  "sighting b =
     (case xyxy b of (x1, y1, x2, y2) \<Rightarrow>
        \<lparr> bbox = (py_int x1, py_int y1, py_int x2, py_int y2), confidence = conf b \<rparr>)"

definition all_boxes :: "box list option list \<Rightarrow> box list" where
  "all_boxes results = concat (map (\<lambda>r. case r of None \<Rightarrow> [] | Some bs \<Rightarrow> bs) results)"

subsection \<open>Overlay rendering\<close>

text \<open>
  The drawing primitives are external. A frame records, in order, the calls that drew on
  it; formatted strings stay symbolic (a literal part, a formatted float with its number
  of decimals, a formatted integer). \<open>cv2.getTextSize\<close> is a parameter that returns
  the width and height of a label.
\<close>

definition draw :: "draw_op \<Rightarrow> frame \<Rightarrow> frame" where
  "draw op fr = fr \<lparr> drawn := drawn fr @ [op] \<rparr>"

definition draw_one :: "(fstring \<Rightarrow> int \<times> int) \<Rightarrow> frame \<Rightarrow> detection \<Rightarrow> frame" where
  "draw_one getTextSize fr d =
     (case bbox d of (b0, b1, b2, b3) \<Rightarrow>
        let label = [Lit ''AMBULANCE '', Fmt_float 2 (confidence d)];
            label_size = getTextSize label
        in draw (PutText label (b0, b1 - 10) (6 / 10) (255, 255, 255) 2)
            (draw (Rectangle (b0, b1 - snd label_size - 10) (b0 + fst label_size, b1 - 5)
                     (0, 0, 255) (- 1))
              (draw (Rectangle (b0, b1) (b2, b3) (0, 0, 255) 2) fr)))"

definition draw_detections ::
  "(fstring \<Rightarrow> int \<times> int) \<Rightarrow> frame \<Rightarrow> detection list \<Rightarrow> frame" where
  "draw_detections getTextSize fr detections = foldl (draw_one getTextSize) fr detections"

fun contains :: "string \<Rightarrow> string \<Rightarrow> bool" where
  "contains w [] = (w = [])"
| "contains w (c # cs) = (take (length w) (c # cs) = w \<or> contains w cs)"

text \<open>
  \<open>w in text\<close> for a word of letters: a formatted number holds no letter, so the word
  can only lie inside a literal part.
\<close>

fun text_contains :: "string \<Rightarrow> fstring \<Rightarrow> bool" where
  "text_contains w [] = False"
| "text_contains w (Lit cs # ps) = (contains w cs \<or> text_contains w ps)"
| "text_contains w (p # ps) = text_contains w ps"

definition info_text :: "system \<Rightarrow> fstring list" where
  "info_text s =
     [ [Lit ''Detections: '', Fmt_int (total_detections s)],
       [Lit ''Signal Changes: '', Fmt_int (signal_changes s)],
       [Lit (''Emergency: '' @ (if emergency_active s then ''ACTIVE'' else ''NORMAL''))],
       [Lit (''Signal: '' @ traffic_signal_state s)] ]"

definition add_info_overlay :: "system \<Rightarrow> frame \<Rightarrow> frame" where
  "add_info_overlay s fr =
     (let fr1 = draw (AddWeighted (Rectangle (width fr - 300, 10) (width fr - 10, 120)
                                     (0, 0, 0) (- 1)) (6 / 10) (4 / 10) 0) fr;
          status_color = (if emergency_active s then (0, 255, 0) else (255, 255, 255))
      in foldl (\<lambda>f (i, text).
                  let y_pos = 35 + int i * 25;
                      color = (if text_contains ''ACTIVE'' text \<or> text_contains ''GREEN'' text
                               then status_color else (255, 255, 255))
                  in draw (PutText text (width fr - 290, y_pos) (6 / 10) color 2) f)
           fr1 (enumerate 0 (info_text s)))"

subsection \<open>The stream loop\<close>

text \<open>
  \<open>collections.deque(maxlen=n).append\<close>: the item is appended on the right and, when
  the deque has grown beyond \<open>maxlen\<close>, the leftmost item is dropped.
\<close>

definition deque_append :: "nat \<Rightarrow> 'a list \<Rightarrow> 'a \<Rightarrow> 'a list" where
  "deque_append maxlen d x =
     (let d' = d @ [x] in if length d' > maxlen then tl d' else d')"

text \<open>
  What one pass through the loop body receives from outside: the frame that
  \<open>cap.read()\<close> returned, whether an external call raises while the overlay is drawn
  (lines 158 and 159) or while the frame is shown (lines 166 to 170), the difference of
  the two \<open>time.time()\<close> readings, and the value of \<open>cv2.waitKey(1)\<close>.
\<close>

record capture =
  frame_read :: frame
  render_error :: "py_error option"
  processing_time :: real
  display_error :: "py_error option"
  key :: int

text \<open>
  The run of the program is driven by a finite schedule: a frame arrives, the source
  reports no frame (\<open>ret\<close> is false), or a pending timer expires between two passes of
  the loop and its callback runs as a whole. A schedule that is used up means the
  recording has ended: \<open>cap.read()\<close> returns no frame.
\<close>

datatype tick = Frame capture | NoFrame | TimerExpires

datatype outcome = SourceNotOpened | EndOfStream | QuitRequested | Raised py_error

record loop_state =
  sys :: system
  fps_counter :: "real list"
  presented :: "frame list"

datatype step_result = Continue loop_state | Stop outcome loop_state

fun result_state :: "step_result \<Rightarrow> loop_state" where
  "result_state (Continue st) = st"
| "result_state (Stop out st) = st"

definition loop_body ::
  "yolo \<Rightarrow> (fstring \<Rightarrow> int \<times> int) \<Rightarrow> loop_state \<Rightarrow> capture \<Rightarrow> step_result" where
  "loop_body y getTextSize st c =
     (case detect_in_frame y (sys st) (frame_read c) of
        Inl e \<Rightarrow> Stop (Raised e) st
      | Inr detections \<Rightarrow>
          let st1 = st \<lparr> sys := on_sightings (sys st) detections \<rparr> in
          (case render_error c of
             Some e \<Rightarrow> Stop (Raised e) st1
           | None \<Rightarrow>
               let fr = add_info_overlay (sys st1)
                          (draw_detections getTextSize (frame_read c) detections)
               in if processing_time c = 0 then Stop (Raised ZeroDivisionError) st1
                  else
                    let fps = 1 / processing_time c;
                        st2 = st1 \<lparr> fps_counter := deque_append 30 (fps_counter st1) fps \<rparr>
                    in if length (fps_counter st2) = 0 then Stop (Raised ZeroDivisionError) st2
                       else
                         let avg_fps = sum_list (fps_counter st2) / real (length (fps_counter st2));
                             fr' = draw (PutText [Lit ''FPS: '', Fmt_float 1 avg_fps] (10, 30)
                                           (7 / 10) (0, 255, 0) 2) fr
                         in (case display_error c of
                               Some e \<Rightarrow> Stop (Raised e) st2
                             | None \<Rightarrow>
                                 let st3 = st2 \<lparr> presented := presented st2 @ [fr'] \<rparr>
                                 in if and (key c) 255 = 113 then Stop QuitRequested st3
                                    else Continue st3)))"

definition log_sys :: "log_entry \<Rightarrow> loop_state \<Rightarrow> loop_state" where
  "log_sys entry st = st \<lparr> sys := (sys st) \<lparr> log := log (sys st) @ [entry] \<rparr> \<rparr>"

fun run_loop ::
  "yolo \<Rightarrow> (fstring \<Rightarrow> int \<times> int) \<Rightarrow> loop_state \<Rightarrow> tick list \<Rightarrow> outcome \<times> loop_state" where
  "run_loop y getTextSize st [] = (EndOfStream, log_sys LogEndOfStream st)"
| "run_loop y getTextSize st (NoFrame # ts) = (EndOfStream, log_sys LogEndOfStream st)"
| "run_loop y getTextSize st (TimerExpires # ts) =
     run_loop y getTextSize (st \<lparr> sys := timer_fire (sys st) \<rparr>) ts"
| "run_loop y getTextSize st (Frame c # ts) =
     (case loop_body y getTextSize st c of
        Continue st' \<Rightarrow> run_loop y getTextSize st' ts
      | Stop out st' \<Rightarrow> (out, st'))"

text \<open>
  \<open>process_video_stream\<close>: \<open>opened\<close> is the answer of \<open>cap.isOpened()\<close>. The
  \<open>finally\<close> block runs on every way out of the loop, also when an exception passes
  through, and the exception then leaves the method.
\<close>

definition process_video_stream ::
  "yolo \<Rightarrow> (fstring \<Rightarrow> int \<times> int) \<Rightarrow> system \<Rightarrow> bool \<Rightarrow> tick list \<Rightarrow> outcome \<times> loop_state" where
  "process_video_stream y getTextSize s opened ticks =
     (if \<not> opened
      then (SourceNotOpened,
            \<lparr> sys = s \<lparr> log := log s @ [LogSourceOpenFailed] \<rparr>,
              fps_counter = [], presented = [] \<rparr>)
      else
        (case run_loop y getTextSize
                \<lparr> sys = s \<lparr> log := log s @ [LogStarting] \<rparr>, fps_counter = [], presented = [] \<rparr>
                ticks of
           (out, st) \<Rightarrow> (out, log_sys LogStopped st)))"

subsection \<open>Operations of the controller as events\<close>

text \<open>
  The methods of the class that run after construction. \<open>detect_in_frame\<close>,
  \<open>draw_detections\<close> and \<open>add_info_overlay\<close> hold no assignment to a field of
  \<open>self\<close>; the two that do are the sightings step of the loop and the timer. Each
  operation is a whole call.
\<close>

datatype operation =
    DetectInFrame
  | DrawDetections
  | AddInfoOverlay
  | OnSightings "detection list"
  | TimerFire

fun step :: "system \<Rightarrow> operation \<Rightarrow> system" where
  "step s DetectInFrame = s"
| "step s DrawDetections = s"
| "step s AddInfoOverlay = s"
| "step s (OnSightings detections) = on_sightings s detections"
| "step s TimerFire = timer_fire s"

subsection \<open>The timer thread between the calls of the main thread\<close>

text \<open>
  \<open>step\<close> and \<open>run_loop\<close> are the serialised view: every call runs to its end
  before the next one starts. The program gives no such guarantee. Line 118 hands
  \<open>reset_emergency_protocol\<close> to a \<open>threading.Timer\<close>, which runs it on a thread
  of its own, and the class holds no lock. So the callback is two steps here, the store
  of the flag (line 124) and the store of the colour with its log record (lines 125 and
  126), and the sightings step of the main thread may run between them. \<open>in_reset\<close>
  counts the callbacks that have stored the flag and not yet the colour.
\<close>

definition reset_store_flag :: "system \<Rightarrow> system" where
  "reset_store_flag s = s \<lparr> emergency_active := False \<rparr>"

definition reset_store_colour :: "system \<Rightarrow> system" where
  "reset_store_colour s =
     s \<lparr> traffic_signal_state := ''RED'', log := log s @ [LogEmergencyReset] \<rparr>"

record threads =
  shared :: system
  in_reset :: nat

datatype thread_step =
    MainSightings "detection list"
  | TimerStoresFlag
  | TimerStoresColour

fun interleaved_step :: "threads \<Rightarrow> thread_step \<Rightarrow> threads" where
  "interleaved_step th (MainSightings detections) =
     th \<lparr> shared := on_sightings (shared th) detections \<rparr>"
| "interleaved_step th TimerStoresFlag =
     (if timers (shared th) = 0 then th
      else th \<lparr> shared := reset_store_flag ((shared th) \<lparr> timers := timers (shared th) - 1 \<rparr>),
                in_reset := in_reset th + 1 \<rparr>)"
| "interleaved_step th TimerStoresColour =
     (if in_reset th = 0 then th
      else th \<lparr> shared := reset_store_colour (shared th), in_reset := in_reset th - 1 \<rparr>)"

subsection \<open>Invariants of the controller\<close>

text \<open>
  The emergency flag and the signal colour agree; a pending timer exists exactly during
  an emergency period.
\<close>

definition signal_consistent :: "system \<Rightarrow> bool" where
  "signal_consistent s =
     ((emergency_active s = (traffic_signal_state s = ''GREEN'')) \<and>
      ((\<not> emergency_active s) = (traffic_signal_state s = ''RED'')))"

definition controller_inv :: "system \<Rightarrow> bool" where
  "controller_inv s =
     (signal_consistent s \<and> timers s = (if emergency_active s then 1 else 0))"

text \<open>
  The two status lines of the overlay panel that show the flag and the colour.
\<close>

definition overlay_agrees :: "system \<Rightarrow> bool" where
  "overlay_agrees s =
     ((info_text s ! 2 = [Lit ''Emergency: ACTIVE''] \<and> info_text s ! 3 = [Lit ''Signal: GREEN'']) \<or>
      (info_text s ! 2 = [Lit ''Emergency: NORMAL''] \<and> info_text s ! 3 = [Lit ''Signal: RED'']))"

subsection \<open>The window of frame rates\<close>

text \<open>
  The \<open>n\<close> most recent items of a list, the frame rates \<open>1.0 / processing_time\<close> of
  the frames of a schedule in order, and the call that writes the averaged frame rate
  of a window on the frame (lines 165 to 167).
\<close>

definition most_recent :: "nat \<Rightarrow> 'a list \<Rightarrow> 'a list" where
  "most_recent n xs = drop (length xs - n) xs"

fun fps_samples :: "tick list \<Rightarrow> real list" where
  "fps_samples [] = []"
| "fps_samples (Frame c # ts) = (1 / processing_time c) # fps_samples ts"
| "fps_samples (t # ts) = fps_samples ts"

definition fps_text :: "real list \<Rightarrow> draw_op" where
  "fps_text window =
     PutText [Lit ''FPS: '', Fmt_float 1 (sum_list window / real (length window))]
       (10, 30) (7 / 10) (0, 255, 0) 2"

text \<open>
  An iteration in which nothing goes wrong and the loop goes on: the model answers and
  every class id is known, no external call raises, the two clock readings differ and
  the key is not \<open>q\<close>. A schedule made of such iterations and of timer expiries
  only is worked through to its end.
\<close>

definition benign :: "yolo \<Rightarrow> system \<Rightarrow> capture \<Rightarrow> bool" where
  "benign y s c =
     (\<not> isl (detect_in_frame y s (frame_read c)) \<and> render_error c = None \<and>
      processing_time c \<noteq> 0 \<and> display_error c = None \<and> and (key c) 255 \<noteq> 113)"

fun benign_tick :: "yolo \<Rightarrow> system \<Rightarrow> tick \<Rightarrow> bool" where
  "benign_tick y s (Frame c) = benign y s c"
| "benign_tick y s NoFrame = False"
| "benign_tick y s TimerExpires = True"

subsection \<open>Sample inputs\<close>

text \<open>
  A frame of 640 by 480 pixels; a model with two classes that reports five boxes, among
  them one ambulance exactly at the threshold 0.7 and one box of an unknown class below
  it; a model that fails on the frame with image 0; an iteration in which nothing
  outside fails and no key is pressed.
\<close>

definition demo_frame :: frame where
  "demo_frame = \<lparr> image = 0, height = 480, width = 640, drawn = [] \<rparr>"

definition demo_names :: "int \<rightharpoonup> string" where
  "demo_names = [0 \<mapsto> ''Ambulance'', 1 \<mapsto> ''car'']"

definition demo_boxes :: "box list" where
  "demo_boxes =
     [ \<lparr> conf = 9/10, cls = 1, xyxy = (0, 0, 50, 50) \<rparr>,
       \<lparr> conf = 7/10, cls = 0, xyxy = (5, 5, 60, 60) \<rparr>,
       \<lparr> conf = 8/10, cls = 0, xyxy = (21/2, 20, 110, 120) \<rparr>,
       \<lparr> conf = 1/10, cls = 7, xyxy = (0, 0, 1, 1) \<rparr>,
       \<lparr> conf = 95/100, cls = 0, xyxy = (- 3/2, 4, 30, 40) \<rparr> ]"

definition demo_yolo :: yolo where
  "demo_yolo = \<lparr> names = demo_names, infer = (\<lambda>fr. Inr [None, Some demo_boxes]) \<rparr>"

definition failing_yolo :: yolo where
  "failing_yolo =
     \<lparr> names = demo_names,
       infer = (\<lambda>fr. if image fr = 0 then Inl ModelError else Inr [None, Some demo_boxes]) \<rparr>"

definition demo_capture :: "real \<Rightarrow> capture" where
  "demo_capture elapsed =
     \<lparr> frame_read = demo_frame, render_error = None, processing_time = elapsed,
       display_error = None, key = - 1 \<rparr>"

definition demo_size :: "fstring \<Rightarrow> int \<times> int" where
  "demo_size label = (120, 14)"

definition demo_state :: loop_state where
  "demo_state = \<lparr> sys = init (7/10), fps_counter = [], presented = [] \<rparr>"

text \<open>
  Thirty-two frames with the elapsed times 1, 1/2, ..., 1/32, so that the frame rates
  are 1, 2, ..., 32; and a schedule of the two threads in which the main thread sees an
  ambulance between the two stores of the timer's callback.
\<close>

definition demo_ticks :: "tick list" where
  "demo_ticks = map (\<lambda>n. Frame (demo_capture (1 / real n))) [1..<33]"

definition demo_sighting :: detection where
  "demo_sighting = \<lparr> bbox = (10, 20, 110, 120), confidence = 8/10 \<rparr>"

definition torn_schedule :: "thread_step list" where
  "torn_schedule =
     [MainSightings [demo_sighting], TimerStoresFlag, MainSightings [demo_sighting],
      TimerStoresColour]"

section \<open>Properties\<close>

subsection \<open>The trigger and the sightings step\<close>

lemma trigger_when_active: "emergency_active s \<Longrightarrow> trigger_emergency_protocol s = s"
  by (simp add: trigger_emergency_protocol_def)

lemma on_sightings_when_active:
  "emergency_active s \<Longrightarrow>
   on_sightings s d = s \<lparr> total_detections := total_detections s + int (length d) \<rparr>"
  by (simp add: on_sightings_def trigger_emergency_protocol_def)

lemma on_sightings_when_normal:
  "\<not> emergency_active s \<Longrightarrow> d \<noteq> [] \<Longrightarrow>
   on_sightings s d =
     s \<lparr> total_detections := total_detections s + int (length d),
         emergency_active := True, traffic_signal_state := ''GREEN'',
         signal_changes := signal_changes s + 1,
         log := log s @ [LogEmergencyActivated],
         timers := timers s + 1 \<rparr>"
  by (simp add: on_sightings_def trigger_emergency_protocol_def)

lemma on_sightings_empty: "on_sightings s [] = s"
  by (simp add: on_sightings_def)

lemma repeated_sightings_active:
  "emergency_active s \<Longrightarrow>
   emergency_active (foldl on_sightings s ds) \<and>
   signal_changes (foldl on_sightings s ds) = signal_changes s \<and>
   timers (foldl on_sightings s ds) = timers s \<and>
   traffic_signal_state (foldl on_sightings s ds) = traffic_signal_state s"
proof (induction ds arbitrary: s)
  case Nil
  then show ?case by simp
next
  case (Cons d ds)
  let ?s1 = "on_sightings s d"
  have eq: "?s1 = s \<lparr> total_detections := total_detections s + int (length d) \<rparr>"
    using Cons.prems by (rule on_sightings_when_active)
  have "emergency_active ?s1" using Cons.prems by (simp add: eq)
  from Cons.IH [OF this] show ?case by (simp add: eq)
qed

text \<open>
  Claim C1. A call of the trigger while the emergency is active returns the state as it
  was: flag, colour, \<open>signal_changes\<close>, the log and the pending timers are unchanged,
  and the sightings step of the loop changes nothing but \<open>total_detections\<close>. Starting
  from the normal state, any non-empty sequence of non-empty sightings (with no timer
  firing in between) raises \<open>signal_changes\<close> by exactly one and starts exactly one
  timer.
\<close>

theorem retrigger_is_noop:
  "(emergency_active s \<longrightarrow>
      trigger_emergency_protocol s = s \<and>
      emergency_active (on_sightings s d) \<and>
      traffic_signal_state (on_sightings s d) = traffic_signal_state s \<and>
      signal_changes (on_sightings s d) = signal_changes s \<and>
      timers (on_sightings s d) = timers s \<and>
      log (on_sightings s d) = log s) \<and>
   (\<not> emergency_active s \<and> ds \<noteq> [] \<and> (\<forall>d \<in> set ds. d \<noteq> []) \<longrightarrow>
      emergency_active (foldl on_sightings s ds) \<and>
      signal_changes (foldl on_sightings s ds) = signal_changes s + 1 \<and>
      timers (foldl on_sightings s ds) = timers s + 1)"
proof (intro conjI impI)
  assume a: "emergency_active s"
  show "trigger_emergency_protocol s = s" using a by (rule trigger_when_active)
  show "emergency_active (on_sightings s d)" using a by (simp add: on_sightings_when_active)
  show "traffic_signal_state (on_sightings s d) = traffic_signal_state s"
    using a by (simp add: on_sightings_when_active)
  show "signal_changes (on_sightings s d) = signal_changes s"
    using a by (simp add: on_sightings_when_active)
  show "timers (on_sightings s d) = timers s" using a by (simp add: on_sightings_when_active)
  show "log (on_sightings s d) = log s" using a by (simp add: on_sightings_when_active)
next
  assume h: "\<not> emergency_active s \<and> ds \<noteq> [] \<and> (\<forall>d \<in> set ds. d \<noteq> [])"
  then obtain d ds' where ds: "ds = d # ds'" by (cases ds) auto
  with h have d: "d \<noteq> []" by simp
  let ?s1 = "on_sightings s d"
  have s1: "emergency_active ?s1" "signal_changes ?s1 = signal_changes s + 1"
    "timers ?s1 = timers s + 1"
    using h d by (simp_all add: on_sightings_when_normal)
  from repeated_sightings_active [OF s1(1), of ds'] s1
  show "emergency_active (foldl on_sightings s ds)"
    and "signal_changes (foldl on_sightings s ds) = signal_changes s + 1"
    and "timers (foldl on_sightings s ds) = timers s + 1"
    by (simp_all add: ds)
qed

theorem retrigger_is_noop_witness:
  "trigger_emergency_protocol (trigger_emergency_protocol (init (7/10)))
     = trigger_emergency_protocol (init (7/10)) \<and>
   signal_changes (foldl on_sightings (init (7/10)) [[()], [(), ()], [()]]) = 1 \<and>
   timers (foldl on_sightings (init (7/10)) [[()], [(), ()], [()]]) = 1 \<and>
   total_detections (foldl on_sightings (init (7/10)) [[()], [(), ()], [()]]) = 4"
proof -
  have a: "emergency_active (trigger_emergency_protocol (init (7/10)))"
    by (simp add: trigger_emergency_protocol_def init_def)
  have b: "\<not> emergency_active (init (7/10)) \<and> [[()], [(), ()], [()]] \<noteq> []
      \<and> (\<forall>d \<in> set [[()], [(), ()], [()]]. d \<noteq> [])"
    by (simp add: init_def)
  have c: "signal_changes (init (7/10)) = 0" "timers (init (7/10)) = 0"
    by (simp_all add: init_def)
  have d: "total_detections (foldl on_sightings (init (7/10)) [[()], [(), ()], [()]]) = 4"
    by (simp add: on_sightings_def trigger_emergency_protocol_def init_def)
  from retrigger_is_noop [of "trigger_emergency_protocol (init (7/10))" "[]::unit list" "[]"] a
  have 1: "trigger_emergency_protocol (trigger_emergency_protocol (init (7/10)))
     = trigger_emergency_protocol (init (7/10))" by blast
  from retrigger_is_noop [of "init (7/10)" "[]::unit list" "[[()], [(), ()], [()]]"] b c
  have 2: "signal_changes (foldl on_sightings (init (7/10)) [[()], [(), ()], [()]]) = 1"
    "timers (foldl on_sightings (init (7/10)) [[()], [(), ()], [()]]) = 1"
    by simp_all
  from 1 2 d show ?thesis by simp
qed

lemma on_sightings_signal_changes:
  "signal_changes (on_sightings s d) =
     (if \<not> emergency_active s \<and> d \<noteq> [] then signal_changes s + 1 else signal_changes s)"
  by (simp add: on_sightings_def trigger_emergency_protocol_def)

lemma on_sightings_total_detections:
  "total_detections (on_sightings s d) = total_detections s + int (length d)"
  by (simp add: on_sightings_def trigger_emergency_protocol_def)

lemma on_sightings_emergency_active:
  "emergency_active (on_sightings s d) = (emergency_active s \<or> d \<noteq> [])"
  by (simp add: on_sightings_def trigger_emergency_protocol_def)

lemma timer_fire_counters:
  "signal_changes (timer_fire s) = signal_changes s"
  "total_detections (timer_fire s) = total_detections s"
  by (simp_all add: timer_fire_def reset_emergency_protocol_def)

lemma timer_fire_emergency_active:
  "emergency_active (timer_fire s) = (emergency_active s \<and> timers s = 0)"
  by (simp add: timer_fire_def reset_emergency_protocol_def)

subsection \<open>The reset\<close>

text \<open>
  Claim C4. In every state, \<open>reset_emergency_protocol\<close> (what the timer calls when it
  fires) sets the flag to false and the colour to RED and leaves \<open>signal_changes\<close>
  and \<open>total_detections\<close> as they were. Over all operations, \<open>signal_changes\<close>
  changes exactly when the operation takes the controller from NORMAL to EMERGENCY, and
  then by one.
\<close>

theorem reset_unconditional:
  "\<not> emergency_active (reset_emergency_protocol s) \<and>
   traffic_signal_state (reset_emergency_protocol s) = ''RED'' \<and>
   current_state (reset_emergency_protocol s) = NORMAL \<and>
   signal_changes (reset_emergency_protocol s) = signal_changes s \<and>
   total_detections (reset_emergency_protocol s) = total_detections s \<and>
   timers (reset_emergency_protocol s) = timers s \<and>
   ((signal_changes (step s e) \<noteq> signal_changes s) =
      (current_state s = NORMAL \<and> current_state (step s e) = EMERGENCY)) \<and>
   (signal_changes (step s e) = signal_changes s \<or>
    signal_changes (step s e) = signal_changes s + 1)"
proof -
  have r: "\<not> emergency_active (reset_emergency_protocol s) \<and>
   traffic_signal_state (reset_emergency_protocol s) = ''RED'' \<and>
   current_state (reset_emergency_protocol s) = NORMAL \<and>
   signal_changes (reset_emergency_protocol s) = signal_changes s \<and>
   total_detections (reset_emergency_protocol s) = total_detections s \<and>
   timers (reset_emergency_protocol s) = timers s"
    by (simp add: reset_emergency_protocol_def current_state_def)
  have c: "(signal_changes (step s e) \<noteq> signal_changes s) =
      (current_state s = NORMAL \<and> current_state (step s e) = EMERGENCY)"
    by (cases e)
      (simp_all add: current_state_def on_sightings_signal_changes
        on_sightings_emergency_active timer_fire_counters timer_fire_emergency_active)
  have d: "signal_changes (step s e) = signal_changes s \<or>
    signal_changes (step s e) = signal_changes s + 1"
    by (cases e) (simp_all add: on_sightings_signal_changes timer_fire_counters)
  from r c d show ?thesis by simp
qed

subsection \<open>Reachable states\<close>

lemma controller_inv_init: "controller_inv (init t)"
  by (simp add: controller_inv_def signal_consistent_def init_def)

lemma controller_inv_on_sightings:
  "controller_inv s \<Longrightarrow> controller_inv (on_sightings s d)"
  by (auto simp add: controller_inv_def signal_consistent_def on_sightings_def
      trigger_emergency_protocol_def)

lemma controller_inv_timer_fire:
  "controller_inv s \<Longrightarrow> controller_inv (timer_fire s)"
  by (auto simp add: controller_inv_def signal_consistent_def timer_fire_def
      reset_emergency_protocol_def)

lemma controller_inv_step: "controller_inv s \<Longrightarrow> controller_inv (step s e)"
  by (cases e) (simp_all add: controller_inv_on_sightings controller_inv_timer_fire)

lemma controller_inv_steps: "controller_inv s \<Longrightarrow> controller_inv (foldl step s es)"
  by (induction es arbitrary: s) (simp_all add: controller_inv_step)

lemma controller_inv_reachable: "controller_inv (foldl step (init t) es)"
  by (rule controller_inv_steps [OF controller_inv_init])

lemma signal_consistent_trigger:
  "signal_consistent s \<Longrightarrow> signal_consistent (trigger_emergency_protocol s)"
  by (simp add: signal_consistent_def trigger_emergency_protocol_def)

lemma signal_consistent_reset: "signal_consistent (reset_emergency_protocol s)"
  by (simp add: signal_consistent_def reset_emergency_protocol_def)

subsection \<open>Transitions\<close>

lemma transition_iff:
  assumes "controller_inv s"
  shows "(current_state (step s e) \<noteq> current_state s) =
     ((current_state s = NORMAL \<and> (\<exists>d. e = OnSightings d \<and> d \<noteq> [])) \<or>
      (current_state s = EMERGENCY \<and> e = TimerFire))"
  using assms
  by (cases e)
    (auto simp add: current_state_def on_sightings_emergency_active
      timer_fire_emergency_active controller_inv_def)

lemma colour_transition_iff:
  assumes "controller_inv s"
  shows "(traffic_signal_state (step s e) \<noteq> traffic_signal_state s) =
     (current_state (step s e) \<noteq> current_state s)"
proof -
  have "controller_inv (step s e)" using assms by (rule controller_inv_step)
  with assms show ?thesis
    by (auto simp add: controller_inv_def signal_consistent_def current_state_def)
qed

text \<open>
  Claim C3. In every state reached from the initial one by operations of the class, an
  operation changes the signal state exactly when the state is NORMAL and the operation
  is a sightings step with a non-empty list, or the state is EMERGENCY and the operation
  is the timer firing; the colour changes in exactly the same cases. The initial state
  is NORMAL, and with two states a change from NORMAL leads to EMERGENCY and back.
\<close>

theorem transitions_total_minimal:
  "(current_state (step (foldl step (init t) es) e) \<noteq> current_state (foldl step (init t) es)) =
     ((current_state (foldl step (init t) es) = NORMAL \<and> (\<exists>d. e = OnSightings d \<and> d \<noteq> [])) \<or>
      (current_state (foldl step (init t) es) = EMERGENCY \<and> e = TimerFire)) \<and>
   (traffic_signal_state (step (foldl step (init t) es) e)
       \<noteq> traffic_signal_state (foldl step (init t) es)) =
     ((current_state (foldl step (init t) es) = NORMAL \<and> (\<exists>d. e = OnSightings d \<and> d \<noteq> [])) \<or>
      (current_state (foldl step (init t) es) = EMERGENCY \<and> e = TimerFire)) \<and>
   current_state (init t) = NORMAL"
  using transition_iff [OF controller_inv_reachable, of t es e]
    colour_transition_iff [OF controller_inv_reachable, of t es e]
  by (simp add: current_state_def init_def)


subsection \<open>The controller inside the stream loop\<close>

lemma loop_body_sys:
  "sys (result_state (loop_body y g st c)) =
     (case detect_in_frame y (sys st) (frame_read c) of
        Inl e \<Rightarrow> sys st
      | Inr d \<Rightarrow> on_sightings (sys st) d)"
  by (simp add: loop_body_def Let_def split: sum.splits option.splits)

lemma loop_body_preserves:
  assumes "\<And>s d. P s \<Longrightarrow> P (on_sightings s (d :: detection list))" and "P (sys st)"
  shows "P (sys (result_state (loop_body y g st c)))"
  using assms by (simp add: loop_body_sys split: sum.splits)

lemma run_loop_preserves:
  assumes os: "\<And>s d. P s \<Longrightarrow> P (on_sightings s (d :: detection list))"
    and tf: "\<And>s. P s \<Longrightarrow> P (timer_fire s)"
    and lg: "\<And>s e. P s \<Longrightarrow> P (s \<lparr> log := log s @ [e] \<rparr>)"
    and st: "P (sys st)"
  shows "P (sys (snd (run_loop y g st ticks)))"
  using st
proof (induction ticks arbitrary: st)
  case Nil
  then show ?case by (simp add: log_sys_def lg)
next
  case (Cons tk ticks)
  show ?case
  proof (cases tk)
    case (Frame c)
    have P': "P (sys (result_state (loop_body y g st c)))"
      using os Cons.prems by (rule loop_body_preserves)
    show ?thesis
    proof (cases "loop_body y g st c")
      case (Continue st')
      with P' have "P (sys st')" by simp
      from Cons.IH [OF this] show ?thesis by (simp add: Frame Continue)
    next
      case (Stop out st')
      with P' show ?thesis by (simp add: Frame)
    qed
  next
    case NoFrame
    then show ?thesis using Cons.prems by (simp add: log_sys_def lg)
  next
    case TimerExpires
    have "P (sys (st \<lparr> sys := timer_fire (sys st) \<rparr>))" using Cons.prems by (simp add: tf)
    from Cons.IH [OF this] show ?thesis by (simp add: TimerExpires)
  qed
qed

lemma run_loop_counters:
  "total_detections (sys st) \<le> total_detections (sys (snd (run_loop y g st ticks))) \<and>
   signal_changes (sys st) \<le> signal_changes (sys (snd (run_loop y g st ticks)))"
proof -
  let ?P = "\<lambda>s::system. total_detections (sys st) \<le> total_detections s \<and>
                signal_changes (sys st) \<le> signal_changes s"
  have "?P (sys (snd (run_loop y g st ticks)))"
  proof (rule run_loop_preserves [where P = ?P])
    fix s and d :: "detection list"
    assume "?P s"
    then show "?P (on_sightings s d)"
      by (simp add: on_sightings_total_detections on_sightings_signal_changes)
  next
    fix s assume "?P s"
    then show "?P (timer_fire s)" by (simp add: timer_fire_counters)
  next
    fix s e assume "?P s"
    then show "?P (s \<lparr> log := log s @ [e] \<rparr>)" by simp
  next
    show "?P (sys st)" by simp
  qed
  then show ?thesis .
qed

lemma run_loop_prefix_counters:
  "total_detections (sys (snd (run_loop y g st (take k ticks))))
     \<le> total_detections (sys (snd (run_loop y g st ticks))) \<and>
   signal_changes (sys (snd (run_loop y g st (take k ticks))))
     \<le> signal_changes (sys (snd (run_loop y g st ticks)))"
proof (induction ticks arbitrary: st k)
  case Nil
  show ?case by simp
next
  case (Cons tk ticks)
  show ?case
  proof (cases k)
    case 0
    have "sys (snd (run_loop y g st [])) = (sys st) \<lparr> log := log (sys st) @ [LogEndOfStream] \<rparr>"
      by (simp add: log_sys_def)
    then show ?thesis
      using run_loop_counters [of st y g "tk # ticks"] by (simp add: 0)
  next
    case (Suc k')
    show ?thesis
    proof (cases tk)
      case (Frame c)
      show ?thesis
        by (cases "loop_body y g st c") (simp_all add: Suc Frame Cons.IH)
    next
      case NoFrame
      then show ?thesis by (simp add: Suc)
    next
      case TimerExpires
      then show ?thesis by (simp add: Suc Cons.IH)
    qed
  qed
qed

lemma step_counters:
  "total_detections s \<le> total_detections (step s e) \<and>
   signal_changes s \<le> signal_changes (step s e)"
  by (cases e)
    (simp_all add: on_sightings_total_detections on_sightings_signal_changes
      timer_fire_counters)

lemma process_video_stream_sys:
  "sys (snd (process_video_stream y g s opened ticks)) =
     (if \<not> opened then s \<lparr> log := log s @ [LogSourceOpenFailed] \<rparr>
      else (let st = snd (run_loop y g
                 \<lparr> sys = s \<lparr> log := log s @ [LogStarting] \<rparr>, fps_counter = [], presented = [] \<rparr>
                 ticks)
            in (sys st) \<lparr> log := log (sys st) @ [LogStopped] \<rparr>))"
  by (simp add: process_video_stream_def log_sys_def Let_def split: prod.splits)

text \<open>
  Claim C8. No operation lowers \<open>total_detections\<close> or \<open>signal_changes\<close>: not the
  trigger, the reset, or any other operation of the class. Along a run of the stream
  loop over any schedule, the counters after the first \<open>k\<close> ticks are at most the
  counters at the end, and the counters at the end of \<open>process_video_stream\<close> are at
  least those at its start.
\<close>

theorem counters_monotone:
  "total_detections s \<le> total_detections (trigger_emergency_protocol s) \<and>
   signal_changes s \<le> signal_changes (trigger_emergency_protocol s) \<and>
   total_detections s \<le> total_detections (reset_emergency_protocol s) \<and>
   signal_changes s \<le> signal_changes (reset_emergency_protocol s) \<and>
   total_detections s \<le> total_detections (step s e) \<and>
   signal_changes s \<le> signal_changes (step s e) \<and>
   total_detections (sys (snd (run_loop y g st (take k ticks))))
     \<le> total_detections (sys (snd (run_loop y g st ticks))) \<and>
   signal_changes (sys (snd (run_loop y g st (take k ticks))))
     \<le> signal_changes (sys (snd (run_loop y g st ticks))) \<and>
   total_detections s \<le> total_detections (sys (snd (process_video_stream y g s opened ticks))) \<and>
   signal_changes s \<le> signal_changes (sys (snd (process_video_stream y g s opened ticks)))"
proof -
  have a: "total_detections s \<le> total_detections (trigger_emergency_protocol s) \<and>
   signal_changes s \<le> signal_changes (trigger_emergency_protocol s) \<and>
   total_detections s \<le> total_detections (reset_emergency_protocol s) \<and>
   signal_changes s \<le> signal_changes (reset_emergency_protocol s)"
    by (simp add: trigger_emergency_protocol_def reset_emergency_protocol_def)
  have b: "total_detections s \<le> total_detections (sys (snd (process_video_stream y g s opened ticks))) \<and>
   signal_changes s \<le> signal_changes (sys (snd (process_video_stream y g s opened ticks)))"
    using run_loop_counters [of "\<lparr> sys = s \<lparr> log := log s @ [LogStarting] \<rparr>,
        fps_counter = [], presented = [] \<rparr>" y g ticks]
    by (simp add: process_video_stream_sys Let_def)
  from a b step_counters [of s e] run_loop_prefix_counters [of y g st k ticks]
  show ?thesis by simp
qed

subsection \<open>Flag and colour\<close>

lemma signal_consistent_overlay: "signal_consistent s \<Longrightarrow> overlay_agrees s"
  by (auto simp add: signal_consistent_def overlay_agrees_def info_text_def)

lemma controller_inv_log: "controller_inv (s \<lparr> log := l \<rparr>) = controller_inv s"
  by (simp add: controller_inv_def signal_consistent_def)

lemma run_loop_controller_inv:
  "controller_inv (sys st) \<Longrightarrow> controller_inv (sys (snd (run_loop y g st ticks)))"
  by (rule run_loop_preserves [where P = controller_inv])
    (simp_all add: controller_inv_on_sightings controller_inv_timer_fire controller_inv_log)

lemma process_video_stream_controller_inv:
  assumes "controller_inv s"
  shows "controller_inv (sys (snd (process_video_stream y g s opened ticks)))"
proof -
  note l = controller_inv_log
  have "controller_inv (sys \<lparr> sys = s \<lparr> log := log s @ [LogStarting] \<rparr>,
        fps_counter = [], presented = [] \<rparr>)"
    using assms by (simp add: l)
  from run_loop_controller_inv [OF this, of y g ticks] assms
  show ?thesis by (simp add: process_video_stream_sys Let_def l)
qed

text \<open>
  When every call runs to its end before the next one starts, flag and colour agree: at
  initialisation, after the trigger in a state where they agreed, after the reset in
  any state, in every state reached by whole operations and at the end of every
  serialised run of \<open>process_video_stream\<close>.
\<close>

lemma serialised_flag_matches_colour:
  "signal_consistent (init t) \<and>
   (signal_consistent s \<longrightarrow> signal_consistent (trigger_emergency_protocol s)) \<and>
   signal_consistent (reset_emergency_protocol s) \<and>
   signal_consistent (foldl step (init t) es) \<and>
   overlay_agrees (foldl step (init t) es) \<and>
   signal_consistent (sys (snd (process_video_stream y g (init t) opened ticks))) \<and>
   overlay_agrees (sys (snd (process_video_stream y g (init t) opened ticks)))"
proof -
  have a: "signal_consistent (foldl step (init t) es)"
    using controller_inv_reachable [of t es] by (simp add: controller_inv_def)
  have b: "signal_consistent (sys (snd (process_video_stream y g (init t) opened ticks)))"
    using process_video_stream_controller_inv [OF controller_inv_init, of y g t opened ticks]
    by (simp add: controller_inv_def)
  have c: "signal_consistent (init t)"
    using controller_inv_init [of t] by (simp add: controller_inv_def)
  from a b c signal_consistent_trigger [of s] signal_consistent_reset [of s]
    signal_consistent_overlay [OF a] signal_consistent_overlay [OF b]
  show ?thesis by simp
qed

lemma reset_in_two_stores:
  "reset_emergency_protocol s = reset_store_colour (reset_store_flag s)"
  by (simp add: reset_emergency_protocol_def reset_store_flag_def reset_store_colour_def)

lemma timer_fire_interleaved:
  "in_reset th = 0 \<Longrightarrow>
   interleaved_step (interleaved_step th TimerStoresFlag) TimerStoresColour =
     th \<lparr> shared := timer_fire (shared th) \<rparr>"
  by (simp add: timer_fire_def reset_in_two_stores reset_store_flag_def reset_store_colour_def)

lemma torn_state:
  "shared (foldl interleaved_step \<lparr> shared = init (7/10), in_reset = 0 \<rparr> torn_schedule) =
     \<lparr> confidence_threshold = 7/10, emergency_active = True, traffic_signal_state = ''RED'',
       total_detections = 2, signal_changes = 2, timers = 1,
       log = [LogEmergencyActivated, LogEmergencyActivated, LogEmergencyReset] \<rparr> \<and>
   in_reset (foldl interleaved_step \<lparr> shared = init (7/10), in_reset = 0 \<rparr> torn_schedule) = 0"
  by (simp add: torn_schedule_def on_sightings_def trigger_emergency_protocol_def init_def
      reset_store_flag_def reset_store_colour_def)

text \<open>
  Claim C10 says that in every reachable state the flag is true exactly when the colour
  is GREEN, so that the panel never shows a flag and a colour that disagree. The
  program can reach a state where it fails. An ambulance is seen and the timer is
  started; the timer fires and its thread stores the flag (line 124); the main thread
  sees an ambulance again and, the flag being false, runs the whole trigger; the timer's
  thread then stores the colour (line 125). No callback is in flight any more, the flag
  is true, the colour is RED, and the panel shows ACTIVE with RED until the next timer
  fires. The same calls run one after the other leave flag and colour in agreement.
\<close>

theorem flag_and_colour_torn:
  "emergency_active
     (shared (foldl interleaved_step \<lparr> shared = init (7/10), in_reset = 0 \<rparr> torn_schedule)) \<and>
   traffic_signal_state
     (shared (foldl interleaved_step \<lparr> shared = init (7/10), in_reset = 0 \<rparr> torn_schedule))
     = ''RED'' \<and>
   in_reset (foldl interleaved_step \<lparr> shared = init (7/10), in_reset = 0 \<rparr> torn_schedule) = 0 \<and>
   \<not> signal_consistent
     (shared (foldl interleaved_step \<lparr> shared = init (7/10), in_reset = 0 \<rparr> torn_schedule)) \<and>
   info_text
     (shared (foldl interleaved_step \<lparr> shared = init (7/10), in_reset = 0 \<rparr> torn_schedule)) ! 2
     = [Lit ''Emergency: ACTIVE''] \<and>
   info_text
     (shared (foldl interleaved_step \<lparr> shared = init (7/10), in_reset = 0 \<rparr> torn_schedule)) ! 3
     = [Lit ''Signal: RED''] \<and>
   \<not> overlay_agrees
     (shared (foldl interleaved_step \<lparr> shared = init (7/10), in_reset = 0 \<rparr> torn_schedule)) \<and>
   signal_consistent
     (foldl step (init (7/10)) [OnSightings [demo_sighting], TimerFire, OnSightings [demo_sighting]])"
proof -
  have s: "signal_consistent
     (foldl step (init (7/10)) [OnSightings [demo_sighting], TimerFire, OnSightings [demo_sighting]])"
    using controller_inv_reachable
      [of "7/10" "[OnSightings [demo_sighting], TimerFire, OnSightings [demo_sighting]]"]
    by (simp only: controller_inv_def)
  show ?thesis
    by (intro conjI s)
      (simp_all add: torn_state signal_consistent_def overlay_agrees_def info_text_def)
qed

subsection \<open>The detection filter\<close>

lemma str_lower_ambulance: "str_lower ''ambulance'' = ''ambulance''"
  by code_simp

lemma str_lower_demo:
  "str_lower ''Ambulance'' = ''ambulance''" "str_lower ''car'' = ''car''"
  by code_simp+

lemmas demo_defs = demo_capture_def demo_frame_def demo_yolo_def demo_boxes_def demo_names_def
  demo_size_def

lemma select_box_spec:
  assumes "conf b > t \<longrightarrow> cls b \<in> dom nm"
  shows "select_box nm t b =
     Inr (if spec_keeps ''ambulance'' t nm b then Some (sighting b) else None)"
proof (cases "conf b > t")
  case True
  with assms obtain label where l: "nm (cls b) = Some label" by auto
  show ?thesis
    by (simp add: select_box_def spec_keeps_def sighting_def l True str_lower_ambulance
        split: prod.splits)
next
  case False
  then show ?thesis
    by (simp add: select_box_def spec_keeps_def split: option.splits)
qed

lemma scan_boxes_spec:
  assumes "\<forall>b \<in> set bs. conf b > t \<longrightarrow> cls b \<in> dom nm"
  shows "scan_boxes nm t bs acc =
     Inr (acc @ map sighting (filter (spec_keeps ''ambulance'' t nm) bs))"
  using assms
proof (induction bs arbitrary: acc)
  case Nil
  show ?case by simp
next
  case (Cons b bs)
  have hd: "conf b > t \<longrightarrow> cls b \<in> dom nm" using Cons.prems by simp
  have tl: "\<forall>b \<in> set bs. conf b > t \<longrightarrow> cls b \<in> dom nm" using Cons.prems by simp
  show ?case
    by (simp add: select_box_spec [OF hd] Cons.IH [OF tl])
qed

lemma scan_results_spec:
  assumes "\<forall>b \<in> set (all_boxes rs). conf b > t \<longrightarrow> cls b \<in> dom nm"
  shows "scan_results nm t rs acc =
     Inr (acc @ map sighting (filter (spec_keeps ''ambulance'' t nm) (all_boxes rs)))"
  using assms
proof (induction rs arbitrary: acc)
  case Nil
  show ?case by (simp add: all_boxes_def)
next
  case (Cons r rs)
  have tl: "\<forall>b \<in> set (all_boxes rs). conf b > t \<longrightarrow> cls b \<in> dom nm"
    using Cons.prems by (simp add: all_boxes_def)
  show ?case
  proof (cases r)
    case None
    then show ?thesis using Cons.IH [OF tl] by (simp add: all_boxes_def)
  next
    case (Some bs)
    have "\<forall>b \<in> set bs. conf b > t \<longrightarrow> cls b \<in> dom nm"
      using Cons.prems by (simp add: all_boxes_def Some)
    from scan_boxes_spec [OF this] Cons.IH [OF tl]
    show ?thesis by (simp add: all_boxes_def Some)
  qed
qed

lemma spec_keeps_strict: "spec_keeps cf t nm b \<Longrightarrow> conf b > t"
  by (simp add: spec_keeps_def split: option.splits)

text \<open>
  Claim C2, as the code has it: the class filter is the literal \<open>'ambulance'\<close> of line
  70, not an input. When the model answers and every box above the threshold has its
  class id in the table of names, \<open>detect_in_frame\<close> returns, in the order of the
  boxes, exactly the boxes whose label equals \<open>'ambulance'\<close> case-insensitively and
  whose confidence is strictly greater than the threshold; a box whose confidence
  equals the threshold is not kept.
\<close>

theorem detect_in_frame_filter:
  assumes "infer y fr = Inr results"
    and "\<forall>b \<in> set (all_boxes results).
           conf b > confidence_threshold s \<longrightarrow> cls b \<in> dom (names y)"
  shows "detect_in_frame y s fr =
           Inr (map sighting
                  (filter (spec_keeps ''ambulance'' (confidence_threshold s) (names y))
                     (all_boxes results))) \<and>
         (\<forall>b \<in> set (all_boxes results).
            spec_keeps ''ambulance'' (confidence_threshold s) (names y) b =
              (\<exists>label. names y (cls b) = Some label \<and>
                 str_lower label = ''ambulance'' \<and> conf b > confidence_threshold s)) \<and>
         (\<forall>b \<in> set (all_boxes results).
            conf b = confidence_threshold s \<longrightarrow>
              \<not> spec_keeps ''ambulance'' (confidence_threshold s) (names y) b)"
proof (intro conjI ballI impI)
  show "detect_in_frame y s fr =
           Inr (map sighting
                  (filter (spec_keeps ''ambulance'' (confidence_threshold s) (names y))
                     (all_boxes results)))"
    using scan_results_spec [OF assms(2), of "[]"] by (simp add: detect_in_frame_def assms(1))
next
  fix b :: box
  show "spec_keeps ''ambulance'' (confidence_threshold s) (names y) b =
              (\<exists>label. names y (cls b) = Some label \<and>
                 str_lower label = ''ambulance'' \<and> conf b > confidence_threshold s)"
    by (simp add: spec_keeps_def str_lower_ambulance split: option.splits)
next
  fix b :: box assume "conf b = confidence_threshold s"
  then show "\<not> spec_keeps ''ambulance'' (confidence_threshold s) (names y) b"
    using spec_keeps_strict [of "''ambulance''" "confidence_threshold s" "names y" b] by auto
qed

lemma demo_detect_init:
  "detect_in_frame demo_yolo (init (7/10)) demo_frame =
     Inr [ \<lparr> bbox = (10, 20, 110, 120), confidence = 8/10 \<rparr>,
           \<lparr> bbox = (- 1, 4, 30, 40), confidence = 95/100 \<rparr> ]"
  by (simp add: detect_in_frame_def select_box_def py_int_def init_def demo_defs str_lower_demo)

theorem detect_in_frame_filter_witness:
  "detect_in_frame demo_yolo (init (7/10)) demo_frame =
     Inr [ \<lparr> bbox = (10, 20, 110, 120), confidence = 8/10 \<rparr>,
           \<lparr> bbox = (- 1, 4, 30, 40), confidence = 95/100 \<rparr> ]"
proof -
  have i: "infer demo_yolo demo_frame = Inr [None, Some demo_boxes]"
    by (simp add: demo_yolo_def)
  have n: "\<forall>b \<in> set (all_boxes [None, Some demo_boxes]).
           conf b > confidence_threshold (init (7/10)) \<longrightarrow> cls b \<in> dom (names demo_yolo)"
    by (simp add: all_boxes_def demo_boxes_def demo_yolo_def demo_names_def init_def)
  from detect_in_frame_filter [OF i n]
  have "detect_in_frame demo_yolo (init (7/10)) demo_frame =
           Inr (map sighting
                  (filter (spec_keeps ''ambulance'' (confidence_threshold (init (7/10)))
                             (names demo_yolo))
                     (all_boxes [None, Some demo_boxes])))" by blast
  then show ?thesis
    by (simp add: all_boxes_def demo_boxes_def demo_yolo_def demo_names_def init_def
        spec_keeps_def sighting_def py_int_def str_lower_demo str_lower_ambulance)
qed

text \<open>
  With the class filter \<open>'car'\<close>, the filter of the specification keeps a box labelled
  \<open>car\<close> with confidence 0.9 at threshold 0.7; the code drops it.
\<close>

theorem class_filter_counterexample:
  "spec_keeps ''car'' (7/10) demo_names \<lparr> conf = 9/10, cls = 1, xyxy = (0, 0, 50, 50) \<rparr> \<and>
   detect_in_frame
     \<lparr> names = demo_names,
       infer = (\<lambda>fr. Inr [Some [\<lparr> conf = 9/10, cls = 1, xyxy = (0, 0, 50, 50) \<rparr>]]) \<rparr>
     (init (7/10)) demo_frame = Inr []"
  by (simp add: spec_keeps_def detect_in_frame_def select_box_def demo_names_def init_def
      str_lower_demo)

subsection \<open>The window of frame rates in the loop\<close>

lemma deque_append_most_recent:
  "deque_append n (most_recent n h) x = most_recent n (h @ [x])"
proof (cases "length h < n")
  case True
  then show ?thesis by (simp add: deque_append_def most_recent_def)
next
  case False
  then have "length h - n < length h \<or> n = 0" by auto
  then show ?thesis using False
    by (auto simp add: deque_append_def most_recent_def Let_def drop_Suc tl_drop Suc_diff_le
        simp flip: drop_Suc)
qed

lemma length_most_recent: "length (most_recent n xs) \<le> n"
  by (simp add: most_recent_def)

lemma deque_append_nonempty: "0 < n \<Longrightarrow> deque_append n d x \<noteq> []"
  by (cases d) (auto simp add: deque_append_def Let_def)

lemma loop_body_stop_outcome:
  "loop_body y g st c = Stop out st' \<Longrightarrow> out = QuitRequested \<or> (\<exists>e. out = Raised e)"
  by (auto simp add: loop_body_def Let_def split: sum.splits option.splits if_splits)

lemma length_deque_append:
  "length d \<le> n \<Longrightarrow> length (deque_append n d x) \<le> n"
  by (auto simp add: deque_append_def Let_def)

lemma loop_body_window_bound:
  "length (fps_counter st) \<le> 30 \<Longrightarrow>
   length (fps_counter (result_state (loop_body y g st c))) \<le> 30"
  by (auto simp add: loop_body_def Let_def length_deque_append
      split: sum.splits option.splits)

lemma run_loop_window_bound:
  "length (fps_counter st) \<le> 30 \<Longrightarrow>
   length (fps_counter (snd (run_loop y g st ticks))) \<le> 30"
proof (induction ticks arbitrary: st)
  case Nil
  then show ?case by (simp add: log_sys_def)
next
  case (Cons tk ticks)
  show ?case
  proof (cases tk)
    case (Frame c)
    from loop_body_window_bound [OF Cons.prems, of y g c] Cons.IH show ?thesis
      by (cases "loop_body y g st c") (simp_all add: Frame)
  next
    case NoFrame
    with Cons.prems show ?thesis by (simp add: log_sys_def)
  next
    case TimerExpires
    with Cons.prems Cons.IH show ?thesis by simp
  qed
qed

lemma process_video_stream_window_bound:
  "length (fps_counter (snd (process_video_stream y g s opened ticks))) \<le> 30"
  using run_loop_window_bound
    [of "\<lparr> sys = s \<lparr> log := log s @ [LogStarting] \<rparr>, fps_counter = [], presented = [] \<rparr>"
      y g ticks]
  by (auto simp add: process_video_stream_def log_sys_def split: prod.splits)

lemma deque_append_30:
  "length d \<le> 30 \<Longrightarrow>
   deque_append 30 d x = (if length d = 30 then tl d @ [x] else d @ [x])"
  by (cases d) (auto simp add: deque_append_def Let_def)

lemma detect_in_frame_threshold:
  "confidence_threshold s = confidence_threshold s' \<Longrightarrow>
   detect_in_frame y s fr = detect_in_frame y s' fr"
  by (simp add: detect_in_frame_def split: sum.splits)

lemma on_sightings_threshold:
  "confidence_threshold (on_sightings s d) = confidence_threshold s"
  by (simp add: on_sightings_def trigger_emergency_protocol_def)

lemma timer_fire_threshold: "confidence_threshold (timer_fire s) = confidence_threshold s"
  by (simp add: timer_fire_def reset_emergency_protocol_def)

lemma loop_body_benign:
  assumes b: "benign y s0 c"
    and t: "confidence_threshold (sys st) = confidence_threshold s0"
  shows "\<exists>st1 fr. loop_body y g st c = Continue st1 \<and>
           fps_counter st1 = deque_append 30 (fps_counter st) (1 / processing_time c) \<and>
           presented st1 = presented st @ [fr] \<and>
           last (drawn fr) = fps_text (fps_counter st1) \<and>
           confidence_threshold (sys st1) = confidence_threshold s0"
proof -
  from b obtain d where d: "detect_in_frame y s0 (frame_read c) = Inr d"
    by (cases "detect_in_frame y s0 (frame_read c)") (auto simp add: benign_def)
  have d': "detect_in_frame y (sys st) (frame_read c) = Inr d"
    using d detect_in_frame_threshold [OF t] by simp
  have ne: "deque_append 30 (fps_counter st) (1 / processing_time c) \<noteq> []"
    by (rule deque_append_nonempty) simp
  show ?thesis using b d' ne t
    by (simp add: benign_def loop_body_def Let_def draw_def fps_text_def on_sightings_threshold)
qed

lemma run_loop_benign:
  assumes "\<forall>t \<in> set ticks. benign_tick y s0 t"
    and "confidence_threshold (sys st) = confidence_threshold s0"
    and "fps_counter st = most_recent 30 h"
  shows "fst (run_loop y g st ticks) = EndOfStream \<and>
         fps_counter (snd (run_loop y g st ticks)) = most_recent 30 (h @ fps_samples ticks) \<and>
         (\<exists>new. presented (snd (run_loop y g st ticks)) = presented st @ new \<and>
            length new = length (fps_samples ticks) \<and>
            (\<forall>i < length new. last (drawn (new ! i)) =
               fps_text (most_recent 30 (h @ take (Suc i) (fps_samples ticks)))))"
  using assms
proof (induction ticks arbitrary: st h)
  case Nil
  then show ?case by (simp add: log_sys_def)
next
  case (Cons tk ticks)
  have rest: "\<forall>t \<in> set ticks. benign_tick y s0 t" using Cons.prems(1) by simp
  show ?case
  proof (cases tk)
    case (Frame c)
    have b: "benign y s0 c" using Cons.prems(1) by (simp add: Frame)
    from loop_body_benign [OF b Cons.prems(2), of g] obtain st1 fr where
      lb: "loop_body y g st c = Continue st1"
      and w: "fps_counter st1 = deque_append 30 (fps_counter st) (1 / processing_time c)"
      and p: "presented st1 = presented st @ [fr]"
      and l: "last (drawn fr) = fps_text (fps_counter st1)"
      and t: "confidence_threshold (sys st1) = confidence_threshold s0"
      by blast
    let ?x = "1 / processing_time c"
    have w1: "fps_counter st1 = most_recent 30 (h @ [?x])"
      by (simp add: w Cons.prems(3) deque_append_most_recent)
    from Cons.IH [OF rest t w1] obtain new where
      o: "fst (run_loop y g st1 ticks) = EndOfStream"
      and f: "fps_counter (snd (run_loop y g st1 ticks)) =
                most_recent 30 ((h @ [?x]) @ fps_samples ticks)"
      and pn: "presented (snd (run_loop y g st1 ticks)) = presented st1 @ new"
      and ln: "length new = length (fps_samples ticks)"
      and an: "\<forall>i < length new. last (drawn (new ! i)) =
               fps_text (most_recent 30 ((h @ [?x]) @ take (Suc i) (fps_samples ticks)))"
      by blast
    have r: "run_loop y g st (tk # ticks) = run_loop y g st1 ticks"
      by (simp add: Frame lb)
    have all: "\<forall>i < length (fr # new). last (drawn ((fr # new) ! i)) =
               fps_text (most_recent 30 (h @ take (Suc i) (?x # fps_samples ticks)))"
    proof (intro allI impI)
      fix i assume i: "i < length (fr # new)"
      show "last (drawn ((fr # new) ! i)) =
               fps_text (most_recent 30 (h @ take (Suc i) (?x # fps_samples ticks)))"
      proof (cases i)
        case 0
        then show ?thesis by (simp add: l w1)
      next
        case (Suc j)
        with i have "j < length new" by simp
        with an show ?thesis by (simp add: Suc)
      qed
    qed
    have s: "fps_samples (tk # ticks) = ?x # fps_samples ticks" by (simp add: Frame)
    have 1: "fst (run_loop y g st (tk # ticks)) = EndOfStream" by (simp only: r o)
    have 2: "fps_counter (snd (run_loop y g st (tk # ticks))) =
               most_recent 30 (h @ fps_samples (tk # ticks))"
      by (simp only: r f s) simp
    have 3: "presented (snd (run_loop y g st (tk # ticks))) = presented st @ (fr # new)"
      by (simp only: r pn p) simp
    have 4: "length (fr # new) = length (fps_samples (tk # ticks))"
      by (simp add: s ln)
    have 5: "\<forall>i < length (fr # new). last (drawn ((fr # new) ! i)) =
               fps_text (most_recent 30 (h @ take (Suc i) (fps_samples (tk # ticks))))"
      using all by (simp only: s)
    from 1 2 3 4 5 show ?thesis by blast
  next
    case NoFrame
    with Cons.prems(1) show ?thesis by simp
  next
    case TimerExpires
    have t: "confidence_threshold (sys (st \<lparr> sys := timer_fire (sys st) \<rparr>)) =
               confidence_threshold s0"
      using Cons.prems(2) by (simp add: timer_fire_threshold)
    have w: "fps_counter (st \<lparr> sys := timer_fire (sys st) \<rparr>) = most_recent 30 h"
      using Cons.prems(3) by simp
    from Cons.IH [OF rest t w] show ?thesis by (simp add: TimerExpires)
  qed
qed

lemma process_video_stream_benign:
  assumes "\<forall>t \<in> set ticks. benign_tick y s t"
  shows "fst (process_video_stream y g s True ticks) = EndOfStream \<and>
         fps_counter (snd (process_video_stream y g s True ticks)) =
           most_recent 30 (fps_samples ticks) \<and>
         length (presented (snd (process_video_stream y g s True ticks))) =
           length (fps_samples ticks) \<and>
         (\<forall>i < length (fps_samples ticks).
            last (drawn (presented (snd (process_video_stream y g s True ticks)) ! i)) =
              fps_text (most_recent 30 (take (Suc i) (fps_samples ticks))))"
proof -
  let ?st0 = "\<lparr> sys = s \<lparr> log := log s @ [LogStarting] \<rparr>, fps_counter = [], presented = [] \<rparr>"
  have t: "confidence_threshold (sys ?st0) = confidence_threshold s" by simp
  have w: "fps_counter ?st0 = most_recent 30 []" by (simp add: most_recent_def)
  from run_loop_benign [OF assms t w, of g] obtain new where
    o: "fst (run_loop y g ?st0 ticks) = EndOfStream"
    and f: "fps_counter (snd (run_loop y g ?st0 ticks)) = most_recent 30 (fps_samples ticks)"
    and p: "presented (snd (run_loop y g ?st0 ticks)) = new"
    and l: "length new = length (fps_samples ticks)"
    and a: "\<forall>i < length new. last (drawn (new ! i)) =
               fps_text (most_recent 30 (take (Suc i) (fps_samples ticks)))"
    by auto
  have e: "process_video_stream y g s True ticks =
             (fst (run_loop y g ?st0 ticks), log_sys LogStopped (snd (run_loop y g ?st0 ticks)))"
    by (simp add: process_video_stream_def split: prod.splits)
  show ?thesis using o f p l a by (simp add: e log_sys_def)
qed

text \<open>
  Claim C6. A window of at most 30 frame rates that receives one more keeps them all
  while there are fewer than 30 and otherwise drops its oldest one. At the end of every
  run of \<open>process_video_stream\<close> the window holds at most 30 frame rates. A schedule
  of iterations in which nothing fails is worked through to the end of the stream;
  then the window holds the 30 most recent frame rates (all of them when there are
  fewer), oldest first, every frame has been shown, and the frame shown in iteration
  \<open>i\<close> carries the arithmetic mean of the 30 most recent frame rates up to and
  including its own. Reals stand for the floats.
\<close>

theorem fps_window_last_30:
  "(length d \<le> 30 \<longrightarrow>
      deque_append 30 d x = (if length d = 30 then tl d @ [x] else d @ [x])) \<and>
   length (fps_counter (snd (process_video_stream y g s opened ticks))) \<le> 30 \<and>
   ((\<forall>t \<in> set ticks. benign_tick y s t) \<longrightarrow>
      fst (process_video_stream y g s True ticks) = EndOfStream \<and>
      fps_counter (snd (process_video_stream y g s True ticks)) =
        most_recent 30 (fps_samples ticks) \<and>
      length (presented (snd (process_video_stream y g s True ticks))) =
        length (fps_samples ticks) \<and>
      (\<forall>i < length (fps_samples ticks).
         last (drawn (presented (snd (process_video_stream y g s True ticks)) ! i)) =
           PutText [Lit ''FPS: '',
                    Fmt_float 1
                      (sum_list (most_recent 30 (take (Suc i) (fps_samples ticks))) /
                       real (length (most_recent 30 (take (Suc i) (fps_samples ticks)))))]
             (10, 30) (7 / 10) (0, 255, 0) 2))"
  using deque_append_30 [of d x] process_video_stream_window_bound [of y g s opened ticks]
    process_video_stream_benign [of ticks y s g]
  by (simp add: fps_text_def)

lemma fps_samples_frames:
  "fps_samples (map (\<lambda>n. Frame (f n)) ns) = map (\<lambda>n. 1 / processing_time (f n)) ns"
  by (induction ns) simp_all

lemma demo_ticks_benign: "\<forall>t \<in> set demo_ticks. benign_tick demo_yolo (init (7/10)) t"
  by (auto simp add: demo_ticks_def benign_def demo_detect_init demo_capture_def)

lemma demo_ticks_samples: "fps_samples demo_ticks = map real [1..<33]"
  by (simp add: demo_ticks_def fps_samples_frames demo_capture_def)

lemma demo_ticks_window: "most_recent 30 (map real [1..<33]) = map real [3..<33]"
  by code_simp

theorem fps_window_last_30_witness:
  "fst (process_video_stream demo_yolo demo_size (init (7/10)) True demo_ticks) = EndOfStream \<and>
   fps_counter (snd (process_video_stream demo_yolo demo_size (init (7/10)) True demo_ticks))
     = map real [3..<33] \<and>
   length (presented (snd (process_video_stream demo_yolo demo_size (init (7/10)) True
     demo_ticks))) = 32 \<and>
   deque_append 30 (map real [1..<31]) 31 = map real [2..<32]"
proof -
  have l: "length (map real [1..<31]) \<le> 30" by simp
  from fps_window_last_30 [of "map real [1..<31]" 31 demo_yolo demo_size "init (7/10)" True
      demo_ticks] demo_ticks_benign l
  have 1: "fst (process_video_stream demo_yolo demo_size (init (7/10)) True demo_ticks)
             = EndOfStream"
    and 2: "fps_counter (snd (process_video_stream demo_yolo demo_size (init (7/10)) True
              demo_ticks)) = most_recent 30 (fps_samples demo_ticks)"
    and 3: "length (presented (snd (process_video_stream demo_yolo demo_size (init (7/10)) True
              demo_ticks))) = length (fps_samples demo_ticks)"
    and 4: "deque_append 30 (map real [1..<31]) 31 =
              (if length (map real [1..<31]) = 30 then tl (map real [1..<31]) @ [31]
               else map real [1..<31] @ [31])"
    by blast+
  have 5: "tl (map real [1..<31]) @ [31] = map real [2..<32]"
    by code_simp
  have 6: "length (map real [1..<31]) = 30" "length (map real [1..<33]) = 32"
    by simp_all
  from 4 5 6 have 7: "deque_append 30 (map real [1..<31]) 31 = map real [2..<32]"
    by (simp only: refl if_True)
  from 2 have 8: "fps_counter (snd (process_video_stream demo_yolo demo_size (init (7/10)) True
              demo_ticks)) = map real [3..<33]"
    by (simp only: demo_ticks_samples demo_ticks_window)
  from 3 6 have 9: "length (presented (snd (process_video_stream demo_yolo demo_size
              (init (7/10)) True demo_ticks))) = 32"
    by (simp only: demo_ticks_samples)
  from 1 7 8 9 show ?thesis by blast
qed

subsection \<open>The division by the elapsed time\<close>

lemma loop_body_zero_time:
  assumes "detect_in_frame y (sys st) (frame_read c) = Inr d" and "render_error c = None"
    and "processing_time c = 0"
  shows "loop_body y g st c = Stop (Raised ZeroDivisionError) (st \<lparr> sys := on_sightings (sys st) d \<rparr>)"
  using assms by (simp add: loop_body_def Let_def)

lemma loop_body_nonzero_time:
  assumes "detect_in_frame y (sys st) (frame_read c) = Inr d" and "render_error c = None"
    and "processing_time c \<noteq> 0"
  shows "fps_counter (result_state (loop_body y g st c)) =
           deque_append 30 (fps_counter st) (1 / processing_time c)"
proof -
  have ne: "deque_append 30 (fps_counter st) (1 / processing_time c) \<noteq> []"
    by (rule deque_append_nonempty) simp
  show ?thesis using assms ne
    by (auto simp add: loop_body_def Let_def split: option.splits)
qed

text \<open>
  Claim C7 asks that a zero or negative elapsed time gives the frame rate 0 or no
  sample at all, and never a division by zero. Line 163 divides with no test. On a
  frame whose two clock readings are equal, with two ambulances detected and the
  overlay drawn, the iteration raises \<open>ZeroDivisionError\<close> after the sightings step
  and the run ends with this exception before the next frame is read. On a frame with
  the elapsed time \<open>-0.5\<close> the sample \<open>-2\<close> goes into the window.
\<close>

theorem fps_zero_elapsed_raises:
  "loop_body demo_yolo demo_size demo_state (demo_capture 0) =
     Stop (Raised ZeroDivisionError)
       (demo_state \<lparr> sys := on_sightings (init (7/10))
           [ \<lparr> bbox = (10, 20, 110, 120), confidence = 8/10 \<rparr>,
             \<lparr> bbox = (- 1, 4, 30, 40), confidence = 95/100 \<rparr> ] \<rparr>) \<and>
   fst (process_video_stream demo_yolo demo_size (init (7/10)) True
         [Frame (demo_capture 0), Frame (demo_capture (1/2))]) = Raised ZeroDivisionError \<and>
   fps_counter (result_state (loop_body demo_yolo demo_size demo_state (demo_capture (- 1/2))))
     = [- 2]"
proof -
  have d: "detect_in_frame demo_yolo (sys demo_state) (frame_read (demo_capture x)) =
     Inr [ \<lparr> bbox = (10, 20, 110, 120), confidence = 8/10 \<rparr>,
           \<lparr> bbox = (- 1, 4, 30, 40), confidence = 95/100 \<rparr> ]" for x
    using demo_detect_init by (simp add: demo_state_def demo_capture_def)
  have a: "loop_body demo_yolo demo_size demo_state (demo_capture 0) =
     Stop (Raised ZeroDivisionError)
       (demo_state \<lparr> sys := on_sightings (init (7/10))
           [ \<lparr> bbox = (10, 20, 110, 120), confidence = 8/10 \<rparr>,
             \<lparr> bbox = (- 1, 4, 30, 40), confidence = 95/100 \<rparr> ] \<rparr>)"
    using loop_body_zero_time [OF d [of 0], of demo_size]
    by (simp add: demo_capture_def demo_state_def)
  have s: "init (7/10) \<lparr> log := log (init (7/10)) @ [LogStarting] \<rparr> \<lparr> log := [] \<rparr> = init (7/10)"
    by (simp add: init_def)
  have d2: "detect_in_frame demo_yolo (init (7/10) \<lparr> log := l \<rparr>) demo_frame =
     detect_in_frame demo_yolo (init (7/10)) demo_frame" for l
    by (simp add: detect_in_frame_def split: sum.splits)
  have b: "fst (process_video_stream demo_yolo demo_size (init (7/10)) True
         [Frame (demo_capture 0), Frame (demo_capture (1/2))]) = Raised ZeroDivisionError"
    by (simp add: process_video_stream_def loop_body_def d2 demo_detect_init Let_def
        demo_capture_def split: prod.splits)
  have c: "fps_counter (result_state (loop_body demo_yolo demo_size demo_state (demo_capture (- 1/2))))
     = [- 2]"
    using loop_body_nonzero_time [OF d [of "- 1/2"], of demo_size]
    by (simp add: demo_capture_def demo_state_def deque_append_def)
  from a b c show ?thesis by simp
qed

subsection \<open>Failures inside an iteration\<close>

lemma detect_in_frame_log: "detect_in_frame y (s \<lparr> log := l \<rparr>) fr = detect_in_frame y s fr"
  by (simp add: detect_in_frame_def split: sum.splits)

lemma run_loop_inference_error:
  "detect_in_frame y (sys st) (frame_read c) = Inl e \<Longrightarrow>
   run_loop y g st (Frame c # rest) = (Raised e, st)"
  by (simp add: loop_body_def)

lemma run_loop_render_error:
  "detect_in_frame y (sys st) (frame_read c) = Inr d \<Longrightarrow> render_error c = Some e \<Longrightarrow>
   run_loop y g st (Frame c # rest) = (Raised e, st \<lparr> sys := on_sightings (sys st) d \<rparr>)"
  by (simp add: loop_body_def Let_def)

lemma run_loop_outcome:
  "fst (run_loop y g st ticks) = EndOfStream \<or> fst (run_loop y g st ticks) = QuitRequested \<or>
   (\<exists>e. fst (run_loop y g st ticks) = Raised e)"
proof (induction ticks arbitrary: st)
  case Nil
  show ?case by simp
next
  case (Cons tk ticks)
  show ?case
  proof (cases tk)
    case (Frame c)
    show ?thesis
    proof (cases "loop_body y g st c")
      case (Continue st')
      with Cons.IH [of st'] show ?thesis by (simp add: Frame)
    next
      case (Stop out st')
      with loop_body_stop_outcome [OF Stop] show ?thesis by (auto simp add: Frame)
    qed
  next
    case NoFrame
    then show ?thesis by simp
  next
    case TimerExpires
    with Cons.IH [of "st \<lparr> sys := timer_fire (sys st) \<rparr>"] show ?thesis by simp
  qed
qed

lemma run_loop_one_total:
  "total_detections (sys (snd (run_loop y g st [Frame c]))) =
     total_detections (sys (result_state (loop_body y g st c)))"
  by (cases "loop_body y g st c") (simp_all add: log_sys_def)

text \<open>
  Claim C5, as the code has it: the \<open>try\<close> of the loop has a \<open>finally\<close> and no
  \<open>except\<close>. When the inference of a frame fails, the loop ends at this frame with
  the exception and the state it had before the frame, whatever frames follow; the log
  gains the start and stop messages only. When the overlay step fails, the loop ends
  with the exception and the state after the sightings step of this frame. The
  invariant of the controller survives every run, and a run ends by the end of the
  stream, the quit key or an exception.
\<close>

theorem frame_error_ends_loop:
  "(detect_in_frame y (sys st) (frame_read c) = Inl e \<longrightarrow>
      run_loop y g st (Frame c # rest) = (Raised e, st)) \<and>
   (detect_in_frame y (sys st) (frame_read c) = Inr d \<and> render_error c = Some e \<longrightarrow>
      run_loop y g st (Frame c # rest) = (Raised e, st \<lparr> sys := on_sightings (sys st) d \<rparr>)) \<and>
   (detect_in_frame y s (frame_read c) = Inl e \<longrightarrow>
      process_video_stream y g s True (Frame c # rest) =
        (Raised e, \<lparr> sys = s \<lparr> log := log s @ [LogStarting, LogStopped] \<rparr>,
                     fps_counter = [], presented = [] \<rparr>)) \<and>
   (controller_inv (sys st) \<longrightarrow> controller_inv (sys (snd (run_loop y g st ticks)))) \<and>
   (fst (run_loop y g st ticks) = EndOfStream \<or> fst (run_loop y g st ticks) = QuitRequested \<or>
    (\<exists>e. fst (run_loop y g st ticks) = Raised e))"
proof -
  have "detect_in_frame y s (frame_read c) = Inl e \<longrightarrow>
      process_video_stream y g s True (Frame c # rest) =
        (Raised e, \<lparr> sys = s \<lparr> log := log s @ [LogStarting, LogStopped] \<rparr>,
                     fps_counter = [], presented = [] \<rparr>)"
    by (simp add: process_video_stream_def loop_body_def detect_in_frame_log log_sys_def)
  with run_loop_inference_error [of y st c e g rest] run_loop_render_error [of y st c d e g rest]
    run_loop_controller_inv [of st y g ticks] run_loop_outcome [of y g st ticks]
  show ?thesis by blast
qed

lemma failing_detect:
  "detect_in_frame failing_yolo s demo_frame = Inl ModelError"
  by (simp add: detect_in_frame_def failing_yolo_def demo_frame_def)

lemma failing_detect_later:
  "detect_in_frame failing_yolo (init (7/10)) (demo_frame \<lparr> image := 2 \<rparr>) =
     Inr [ \<lparr> bbox = (10, 20, 110, 120), confidence = 8/10 \<rparr>,
           \<lparr> bbox = (- 1, 4, 30, 40), confidence = 95/100 \<rparr> ]"
  by (simp add: detect_in_frame_def select_box_def py_int_def init_def failing_yolo_def
      demo_frame_def demo_boxes_def demo_names_def str_lower_demo)

theorem frame_error_ends_loop_witness:
  "run_loop failing_yolo demo_size demo_state
     [Frame (demo_capture (1/2)),
      Frame ((demo_capture (1/2)) \<lparr> frame_read := demo_frame \<lparr> image := 2 \<rparr> \<rparr>)]
     = (Raised ModelError, demo_state) \<and>
   fst (run_loop demo_yolo demo_size demo_state
     [Frame ((demo_capture (1/2)) \<lparr> render_error := Some Cv2Error \<rparr>), Frame (demo_capture (1/2))])
     = Raised Cv2Error \<and>
   controller_inv (sys (snd (run_loop demo_yolo demo_size demo_state
     [Frame ((demo_capture (1/2)) \<lparr> render_error := Some Cv2Error \<rparr>), Frame (demo_capture (1/2))])))"
proof -
  have i: "detect_in_frame failing_yolo (sys demo_state) (frame_read (demo_capture (1/2)))
      = Inl ModelError"
    by (simp add: failing_detect demo_capture_def)
  have d: "detect_in_frame demo_yolo (sys demo_state)
       (frame_read ((demo_capture (1/2)) \<lparr> render_error := Some Cv2Error \<rparr>)) =
     Inr [ \<lparr> bbox = (10, 20, 110, 120), confidence = 8/10 \<rparr>,
           \<lparr> bbox = (- 1, 4, 30, 40), confidence = 95/100 \<rparr> ] \<and>
     render_error ((demo_capture (1/2)) \<lparr> render_error := Some Cv2Error \<rparr>) = Some Cv2Error"
    using demo_detect_init by (simp add: demo_state_def demo_capture_def)
  have c: "controller_inv (sys demo_state)"
    by (simp add: demo_state_def controller_inv_init)
  from frame_error_ends_loop [of failing_yolo demo_state "demo_capture (1/2)" ModelError] i
  have 1: "run_loop failing_yolo demo_size demo_state
     [Frame (demo_capture (1/2)),
      Frame ((demo_capture (1/2)) \<lparr> frame_read := demo_frame \<lparr> image := 2 \<rparr> \<rparr>)]
     = (Raised ModelError, demo_state)" by blast
  from frame_error_ends_loop [of demo_yolo demo_state
      "(demo_capture (1/2)) \<lparr> render_error := Some Cv2Error \<rparr>" Cv2Error demo_size
      "[Frame (demo_capture (1/2))]"
      "[ \<lparr> bbox = (10, 20, 110, 120), confidence = 8/10 \<rparr>,
           \<lparr> bbox = (- 1, 4, 30, 40), confidence = 95/100 \<rparr> ]"] d
  have 2: "fst (run_loop demo_yolo demo_size demo_state
     [Frame ((demo_capture (1/2)) \<lparr> render_error := Some Cv2Error \<rparr>), Frame (demo_capture (1/2))])
     = Raised Cv2Error" by simp
  from frame_error_ends_loop [where st = demo_state and y = demo_yolo and g = demo_size
      and ticks = "[Frame ((demo_capture (1/2)) \<lparr> render_error := Some Cv2Error \<rparr>),
                   Frame (demo_capture (1/2))]"] c
  have 3: "controller_inv (sys (snd (run_loop demo_yolo demo_size demo_state
     [Frame ((demo_capture (1/2)) \<lparr> render_error := Some Cv2Error \<rparr>), Frame (demo_capture (1/2))])))"
    by blast
  from 1 2 3 show ?thesis by simp
qed

text \<open>
  The model fails on the first frame and would report two ambulances on the second:
  the run ends with the exception, nothing is counted or shown, and the log holds no
  record of the failure.
\<close>

theorem frame_error_counterexample:
  "process_video_stream failing_yolo demo_size (init (7/10)) True
     [Frame (demo_capture (1/2)),
      Frame ((demo_capture (1/2)) \<lparr> frame_read := demo_frame \<lparr> image := 2 \<rparr> \<rparr>)] =
     (Raised ModelError,
      \<lparr> sys = (init (7/10)) \<lparr> log := [LogStarting, LogStopped] \<rparr>,
        fps_counter = [], presented = [] \<rparr>) \<and>
   total_detections (sys (snd (process_video_stream failing_yolo demo_size (init (7/10)) True
     [Frame ((demo_capture (1/2)) \<lparr> frame_read := demo_frame \<lparr> image := 2 \<rparr> \<rparr>)]))) = 2"
proof -
  have a: "process_video_stream failing_yolo demo_size (init (7/10)) True
     [Frame (demo_capture (1/2)),
      Frame ((demo_capture (1/2)) \<lparr> frame_read := demo_frame \<lparr> image := 2 \<rparr> \<rparr>)] =
     (Raised ModelError,
      \<lparr> sys = (init (7/10)) \<lparr> log := [LogStarting, LogStopped] \<rparr>,
        fps_counter = [], presented = [] \<rparr>)"
    by (simp add: process_video_stream_def loop_body_def failing_detect log_sys_def
        demo_capture_def init_def)
  have b: "total_detections (sys (snd (process_video_stream failing_yolo demo_size (init (7/10)) True
     [Frame ((demo_capture (1/2)) \<lparr> frame_read := demo_frame \<lparr> image := 2 \<rparr> \<rparr>)]))) = 2"
  proof -
    let ?s = "(init (7/10)) \<lparr> log := log (init (7/10)) @ [LogStarting] \<rparr>"
    let ?c = "(demo_capture (1/2)) \<lparr> frame_read := demo_frame \<lparr> image := 2 \<rparr> \<rparr>"
    have "total_detections (sys (snd (process_video_stream failing_yolo demo_size (init (7/10))
            True [Frame ?c]))) =
          total_detections (sys (result_state (loop_body failing_yolo demo_size
            \<lparr> sys = ?s, fps_counter = [], presented = [] \<rparr> ?c)))"
      by (simp add: process_video_stream_sys run_loop_one_total Let_def del: run_loop.simps)
    also have "\<dots> = total_detections ?s + 2"
      by (simp add: loop_body_sys detect_in_frame_log failing_detect_later
          on_sightings_total_detections demo_capture_def)
    also have "\<dots> = 2" by (simp add: init_def)
    finally show ?thesis .
  qed
  from a b show ?thesis by simp
qed

subsection \<open>Drawing the detections\<close>

lemma draw_one_drawn:
  "drawn (draw_one g fr d) =
     drawn fr @
     [ Rectangle (fst (bbox d), fst (snd (bbox d)))
         (fst (snd (snd (bbox d))), snd (snd (snd (bbox d)))) (0, 0, 255) 2,
       Rectangle (fst (bbox d),
                  fst (snd (bbox d)) - snd (g [Lit ''AMBULANCE '', Fmt_float 2 (confidence d)]) - 10)
         (fst (bbox d) + fst (g [Lit ''AMBULANCE '', Fmt_float 2 (confidence d)]),
          fst (snd (bbox d)) - 5) (0, 0, 255) (- 1),
       PutText [Lit ''AMBULANCE '', Fmt_float 2 (confidence d)]
         (fst (bbox d), fst (snd (bbox d)) - 10) (6 / 10) (255, 255, 255) 2 ]"
  by (simp add: draw_one_def draw_def Let_def split: prod.splits)

lemma draw_one_shape:
  "width (draw_one g fr d) = width fr \<and> height (draw_one g fr d) = height fr \<and>
   image (draw_one g fr d) = image fr"
  by (simp add: draw_one_def draw_def Let_def split: prod.splits)

lemma draw_detections_snoc:
  "draw_detections g fr (ds @ [d]) = draw_one g (draw_detections g fr ds) d"
  by (simp add: draw_detections_def)

lemma draw_detections_shape:
  "width (draw_detections g fr ds) = width fr \<and> height (draw_detections g fr ds) = height fr"
  by (induction ds rule: rev_induct)
    (simp_all add: draw_detections_snoc draw_one_shape, simp add: draw_detections_def)

lemma draw_detections_box:
  "d \<in> set ds \<Longrightarrow>
   Rectangle (fst (bbox d), fst (snd (bbox d)))
     (fst (snd (snd (bbox d))), snd (snd (snd (bbox d)))) (0, 0, 255) 2
     \<in> set (drawn (draw_detections g fr ds))"
proof (induction ds rule: rev_induct)
  case Nil
  then show ?case by simp
next
  case (snoc x xs)
  show ?case
  proof (cases "d = x")
    case True
    then show ?thesis by (simp add: draw_detections_snoc draw_one_drawn)
  next
    case False
    with snoc.prems have "d \<in> set xs" by simp
    from snoc.IH [OF this] show ?thesis by (simp add: draw_detections_snoc draw_one_drawn)
  qed
qed

text \<open>
  Claim C9, as the code has it: \<open>draw_detections\<close> hands the corners of every
  bounding box to the rectangle call as they are in the detection, whatever the size
  of the frame, and leaves the size of the frame as it was.
\<close>

theorem boxes_drawn_unclamped:
  assumes "d \<in> set ds" and "bbox d = (x1, y1, x2, y2)"
  shows "Rectangle (x1, y1) (x2, y2) (0, 0, 255) 2 \<in> set (drawn (draw_detections g fr ds)) \<and>
         width (draw_detections g fr ds) = width fr \<and>
         height (draw_detections g fr ds) = height fr"
  using draw_detections_box [OF assms(1), of g fr] draw_detections_shape [of g fr ds]
  by (simp add: assms(2))

theorem boxes_drawn_unclamped_witness:
  "Rectangle (- 50, - 20) (5000, 4000) (0, 0, 255) 2 \<in>
     set (drawn (draw_detections demo_size demo_frame
       [\<lparr> bbox = (10, 20, 110, 120), confidence = 8/10 \<rparr>,
        \<lparr> bbox = (- 50, - 20, 5000, 4000), confidence = 9/10 \<rparr>]))"
  using boxes_drawn_unclamped [of "\<lparr> bbox = (- 50, - 20, 5000, 4000), confidence = 9/10 \<rparr>"
      "[\<lparr> bbox = (10, 20, 110, 120), confidence = 8/10 \<rparr>,
        \<lparr> bbox = (- 50, - 20, 5000, 4000), confidence = 9/10 \<rparr>]"
      "- 50" "- 20" 5000 4000 demo_size demo_frame]
  by simp

text \<open>
  On a frame of 640 by 480 pixels the box from (-50, -20) to (5000, 4000) reaches the
  drawing calls with these coordinates.
\<close>

theorem boxes_clamped_counterexample:
  "drawn (draw_detections demo_size demo_frame
     [\<lparr> bbox = (- 50, - 20, 5000, 4000), confidence = 9/10 \<rparr>]) =
     [ Rectangle (- 50, - 20) (5000, 4000) (0, 0, 255) 2,
       Rectangle (- 50, - 44) (70, - 25) (0, 0, 255) (- 1),
       PutText [Lit ''AMBULANCE '', Fmt_float 2 (9/10)] (- 50, - 30) (6 / 10) (255, 255, 255) 2 ] \<and>
   width demo_frame = 640 \<and> height demo_frame = 480"
  by (simp add: draw_detections_def draw_one_drawn demo_frame_def demo_size_def)

end
